theory Spec2Isabelle
  imports Main "HOL-Library.Multiset"
begin

section \<open>Events and exceptions\<close>

text \<open>
  The aggregator of \<^verbatim>\<open>src/src\<close>: the pydantic models of \<^verbatim>\<open>models.py\<close>, the
  persistence functions of \<^verbatim>\<open>database.py\<close> and the consumer, the admission handler and
  the shutdown sequence of \<^verbatim>\<open>main.py\<close>.

  A payload is a JSON object. Numbers are integers here; no function of the code looks
  inside a payload.
\<close>

datatype json = JNull | JBool bool | JNum int | JStr string
  | JArr "json list" | JObj "(string \<times> json) list"

type_synonym payload = "(string \<times> json) list"

text \<open>\<^verbatim>\<open>class Event(BaseModel)\<close>: five fields, all present once the model is built.\<close>

record event =
  topic :: string
  event_id :: string
  timestamp :: string
  source :: string
  payload :: payload

text \<open>
  The exceptions the modelled code raises, catches or lets through. \<open>SerializationError\<close>
  is the abort of a serializable transaction on a concurrent conflict.
  \<open>ConnectionDoesNotExistError\<close> is the loss of the connection in the middle of a
  statement; the driver answers any later operation on that connection with
  \<open>InterfaceError\<close>. \<open>PostgresError\<close> stands for any other error the server reports on
  a connection that stays open, with its message. The wording of the messages of the
  libraries is schematic.
\<close>

datatype field_error = Missing string | TooShort string | TooLong string

datatype exn =
    RuntimeError string
  | UniqueViolationError
  | SerializationError
  | NumericValueOutOfRangeError
  | DataError
  | ConnectionDoesNotExistError
  | InterfaceError string
  | PostgresError string
  | ValidationError "field_error list"
  | AttributeError string
  | ValueError string
  | HTTPException nat string

fun field_error_str :: "field_error \<Rightarrow> string" where
  "field_error_str (Missing f) = f @ '': Field required''"
| "field_error_str (TooShort f) = f @ '': String should have at least 1 character''"
| "field_error_str (TooLong f) = f @ '': String should have at most 255 characters''"

text \<open>\<^verbatim>\<open>str(e)\<close>.\<close>

fun str_exn :: "exn \<Rightarrow> string" where
  "str_exn (RuntimeError m) = m"
| "str_exn UniqueViolationError = ''duplicate key value violates unique constraint''"
| "str_exn SerializationError = ''could not serialize access due to concurrent update''"
| "str_exn NumericValueOutOfRangeError = ''integer out of range''"
| "str_exn DataError = ''invalid input for query argument: value out of int32 range''"
| "str_exn ConnectionDoesNotExistError = ''connection was closed in the middle of operation''"
| "str_exn (InterfaceError m) = m"
| "str_exn (PostgresError m) = m"
| "str_exn (ValidationError fs) = concat (map field_error_str fs)"
| "str_exn (AttributeError m) = m"
| "str_exn (ValueError m) = m"
| "str_exn (HTTPException c m) = m"

text \<open>
  The exceptions after which the connection is closed, and what the driver raises when
  \<^verbatim>\<open>COMMIT\<close> or \<^verbatim>\<open>ROLLBACK\<close> is then sent on leaving a transaction block.
\<close>

fun closes_connection :: "exn \<Rightarrow> bool" where
  "closes_connection ConnectionDoesNotExistError = True"
| "closes_connection _ = False"

definition connection_is_closed :: exn where
  "connection_is_closed = InterfaceError ''cannot perform operation: connection is closed''"

section \<open>The database and the service state\<close>

text \<open>
  The three tables of \<^verbatim>\<open>init_db\<close>. A row of \<^verbatim>\<open>dedup_store\<close> is its key
  \<open>(topic, event_id)\<close>; a row of \<^verbatim>\<open>processed_events\<close> is the five inserted columns.
  The columns the server fills in by default (\<^verbatim>\<open>id\<close>, \<^verbatim>\<open>created_at\<close>,
  \<^verbatim>\<open>received_at\<close>, \<^verbatim>\<open>processed_at\<close>) are left out: no modelled statement reads them.
  \<^verbatim>\<open>event_stats\<close> holds at most one row (\<^verbatim>\<open>CHECK (id = 1)\<close> on its primary key), so
  it is an option.
\<close>

record stats_row =
  received :: int
  unique_processed :: int
  duplicate_dropped :: int

record database =
  dedup_store :: "(string \<times> string) list"
  processed_events :: "event list"
  event_stats :: "stats_row option"

datatype level = INFO | WARNING | ERROR

text \<open>One constructor per \<^verbatim>\<open>logger\<close> call of the modelled functions, with the values it prints.\<close>

datatype log_msg =
    Duplicate_event_rejected string string
  | Error_marking_event_as_processed string
  | Error_updating_stats string
  | Duplicate_dropped string string
  | Event_processed string string
  | Event_rejected "string option" string string
  | Error_in_consumer_worker string
  | Unexpected_error_processing_event nat string
  | Error_in_publish_endpoint string
  | Shutting_down
  | Queue_emptied
  | Database_pool_closed
  | Aggregator_service_stopped

text \<open>
  The consumer task: running (waiting for an event, or holding the one it took from the
  queue and has not processed yet), cancelled, or ended by an exception.
\<close>

datatype consumer_state = Running "event option" | Cancelled | Failed exn

text \<open>
  The state of the process and of the database it talks to.
  \<^item> \<open>pool\<close>: \<^verbatim>\<open>_pool is not None\<close>.
  \<^item> \<open>script\<close>: the server's answers to the statements the process will send, in order:
    \<open>Some e\<close> when the statement raises \<open>e\<close>, \<open>None\<close> when it runs. An empty script means
    that every statement runs. Each \<^verbatim>\<open>conn.execute\<close>, \<^verbatim>\<open>conn.fetchval\<close> takes one answer.
  \<^item> \<open>queue\<close>, \<open>unfinished_tasks\<close>: the \<^verbatim>\<open>asyncio.Queue\<close> and its counter of items put and
    not yet marked done.
\<close>

record service =
  pool :: bool
  db :: database
  script :: "exn option list"
  queue :: "event list"
  unfinished_tasks :: nat
  consumer :: consumer_state
  log :: "(level \<times> log_msg) list"

definition logger :: "level \<Rightarrow> log_msg \<Rightarrow> service \<Rightarrow> service" where
  "logger l m s = s\<lparr>log := log s @ [(l, m)]\<rparr>"

definition answer :: "service \<Rightarrow> exn option \<times> service" where
  "answer s = (case script s of [] \<Rightarrow> (None, s) | a # as \<Rightarrow> (a, s\<lparr>script := as\<rparr>))"

definition pool_not_initialized :: exn where
  "pool_not_initialized = RuntimeError ''Database pool not initialized''"

subsection \<open>\<^verbatim>\<open>is_processed\<close>\<close>

definition is_processed :: "string \<Rightarrow> string \<Rightarrow> service \<Rightarrow> (exn + bool) \<times> service" where
  "is_processed t i s =
     (if \<not> pool s then (Inl pool_not_initialized, s)
      else case answer s of
        (Some e, s') \<Rightarrow> (Inl e, s')
      | (None, s') \<Rightarrow> (Inr ((t, i) \<in> set (dedup_store (db s'))), s'))"

subsection \<open>\<^verbatim>\<open>mark_processed\<close>\<close>

text \<open>\<^verbatim>\<open>INSERT ... ON CONFLICT DO NOTHING\<close> under \<^verbatim>\<open>UNIQUE (topic, event_id)\<close>.\<close>

definition insert_dedup :: "string \<times> string \<Rightarrow> database \<Rightarrow> database" where
  "insert_dedup k d =
     (if k \<in> set (dedup_store d) then d else d\<lparr>dedup_store := dedup_store d @ [k]\<rparr>)"

definition insert_processed :: "event \<Rightarrow> database \<Rightarrow> database" where
  "insert_processed e d =
     (if (topic e, event_id e) \<in> set (map (\<lambda>r. (topic r, event_id r)) (processed_events d))
      then d else d\<lparr>processed_events := processed_events d @ [e]\<rparr>)"

text \<open>
  The two \<^verbatim>\<open>except\<close> clauses of \<^verbatim>\<open>mark_processed\<close>. They sit inside the transaction
  block, so the block is left by \<^verbatim>\<open>return\<close>: the driver sends \<^verbatim>\<open>COMMIT\<close>, which the
  server answers by rolling back the failed transaction. The database is the one from
  before the transaction. When the error has closed the connection, \<^verbatim>\<open>COMMIT\<close> cannot
  be sent: the clause has logged, and the function raises \<open>InterfaceError\<close> in place of
  returning.
\<close>

definition mark_failed ::
  "event \<Rightarrow> exn \<Rightarrow> service \<Rightarrow> (exn + bool \<times> string option) \<times> service" where
  "mark_failed ev e s =
     (case e of
        UniqueViolationError \<Rightarrow>
          (Inr (False, Some ''Duplicate event''),
           logger WARNING (Duplicate_event_rejected (topic ev) (event_id ev)) s)
      | _ \<Rightarrow>
          (if closes_connection e then Inl connection_is_closed
           else Inr (False, Some (str_exn e)),
           logger ERROR (Error_marking_event_as_processed (str_exn e)) s))"

definition mark_processed ::
  "event \<Rightarrow> service \<Rightarrow> (exn + bool \<times> string option) \<times> service" where
  "mark_processed ev s =
     (if \<not> pool s then (Inl pool_not_initialized, s)
      else case answer s of
        (Some e, s1) \<Rightarrow> mark_failed ev e s1
      | (None, s1) \<Rightarrow>
          (case answer s1 of
             (Some e, s2) \<Rightarrow> mark_failed ev e s2
           | (None, s2) \<Rightarrow>
               (Inr (True, None),
                s2\<lparr>db := insert_processed ev
                            (insert_dedup (topic ev, event_id ev) (db s2))\<rparr>)))"

subsection \<open>\<^verbatim>\<open>increment_stats\<close>\<close>

text \<open>
  The columns are \<^verbatim>\<open>INT\<close>, so the three parameters are 32-bit integers: the driver
  refuses an argument outside that range before the statement is executed
  (\<open>DataError\<close>), and the server refuses a sum outside it
  (\<open>NumericValueOutOfRangeError\<close>). \<^verbatim>\<open>UPDATE ... WHERE id = 1\<close> changes nothing when the
  row is absent.
\<close>

definition int4 :: "int \<Rightarrow> bool" where
  "int4 x = (- 2147483648 \<le> x \<and> x \<le> 2147483647)"

definition update_stats :: "int \<Rightarrow> int \<Rightarrow> int \<Rightarrow> database \<Rightarrow> exn + database" where
  "update_stats r u d dbs =
     (case event_stats dbs of
        None \<Rightarrow> Inr dbs
      | Some row \<Rightarrow>
          if int4 (received row + r) \<and> int4 (unique_processed row + u)
             \<and> int4 (duplicate_dropped row + d)
          then Inr (dbs\<lparr>event_stats := Some
                 \<lparr>received = received row + r,
                  unique_processed = unique_processed row + u,
                  duplicate_dropped = duplicate_dropped row + d\<rparr>\<rparr>)
          else Inl NumericValueOutOfRangeError)"

text \<open>
  The \<^verbatim>\<open>except Exception\<close> clause logs and raises again; the transaction block is left
  by the exception and rolled back. When the error has closed the connection,
  \<^verbatim>\<open>ROLLBACK\<close> cannot be sent and \<open>InterfaceError\<close> is raised in its place.
\<close>

definition leave_block :: "exn \<Rightarrow> exn" where
  "leave_block e = (if closes_connection e then connection_is_closed else e)"

definition increment_stats :: "int \<Rightarrow> int \<Rightarrow> int \<Rightarrow> service \<Rightarrow> (exn + unit) \<times> service" where
  "increment_stats r u d s =
     (if \<not> pool s then (Inl pool_not_initialized, s)
      else if \<not> (int4 r \<and> int4 u \<and> int4 d)
      then (Inl DataError, logger ERROR (Error_updating_stats (str_exn DataError)) s)
      else case answer s of
        (Some e, s') \<Rightarrow>
          (Inl (leave_block e), logger ERROR (Error_updating_stats (str_exn e)) s')
      | (None, s') \<Rightarrow>
          (case update_stats r u d (db s') of
             Inl e \<Rightarrow> (Inl e, logger ERROR (Error_updating_stats (str_exn e)) s')
           | Inr dbs \<Rightarrow> (Inr (), s'\<lparr>db := dbs\<rparr>)))"

subsection \<open>\<^verbatim>\<open>get_stats\<close>, \<^verbatim>\<open>clear_all_data\<close>, the pool\<close>

definition get_stats :: "service \<Rightarrow> (exn + stats_row) \<times> service" where
  "get_stats s =
     (if \<not> pool s then (Inl pool_not_initialized, s)
      else case answer s of
        (Some e, s') \<Rightarrow> (Inl e, s')
      | (None, s') \<Rightarrow>
          (case event_stats (db s') of
             None \<Rightarrow> (Inr \<lparr>received = 0, unique_processed = 0, duplicate_dropped = 0\<rparr>, s')
           | Some row \<Rightarrow> (Inr row, s')))"

text \<open>
  Three statements in one transaction; a statement that raises ends the function and
  the transaction is rolled back.
\<close>

definition clear_all_data :: "service \<Rightarrow> (exn + unit) \<times> service" where
  "clear_all_data s =
     (if \<not> pool s then (Inl pool_not_initialized, s)
      else case answer s of
        (Some e, s1) \<Rightarrow> (Inl (leave_block e), s1)
      | (None, s1) \<Rightarrow>
          (case answer s1 of
             (Some e, s2) \<Rightarrow> (Inl (leave_block e), s2)
           | (None, s2) \<Rightarrow>
               (case answer s2 of
                  (Some e, s3) \<Rightarrow> (Inl (leave_block e), s3)
                | (None, s3) \<Rightarrow>
                    (Inr (),
                     s3\<lparr>db := \<lparr>dedup_store = [], processed_events = [],
                        event_stats = map_option
                          (\<lambda>_. \<lparr>received = 0, unique_processed = 0, duplicate_dropped = 0\<rparr>)
                          (event_stats (db s3))\<rparr>\<rparr>))))"

definition close_pool :: "service \<Rightarrow> service" where
  "close_pool s = (if pool s then logger INFO Database_pool_closed (s\<lparr>pool := False\<rparr>) else s)"

text \<open>
  The schema \<^verbatim>\<open>init_db\<close> creates: both event tables empty and the statistics row at
  zero. \<open>fresh as\<close> is the service on that schema with the pool open, an empty queue, the
  consumer waiting, and \<open>as\<close> for the server's answers.
\<close>

definition empty_db :: database where
  "empty_db = \<lparr>dedup_store = [], processed_events = [],
     event_stats = Some \<lparr>received = 0, unique_processed = 0, duplicate_dropped = 0\<rparr>\<rparr>"

definition fresh :: "exn option list \<Rightarrow> service" where
  "fresh as = \<lparr>pool = True, db = empty_db, script = as, queue = [], unfinished_tasks = 0,
     consumer = Running None, log = []\<rparr>"

definition evt :: "string \<Rightarrow> string \<Rightarrow> event" where
  "evt t i = \<lparr>topic = t, event_id = i, timestamp = ''2025-12-18T10:30:00Z'',
     source = ''s'', payload = []\<rparr>"

section \<open>The event model and the request model (\<^verbatim>\<open>models.py\<close>)\<close>

text \<open>
  A raw record gives each field of \<^verbatim>\<open>Event\<close> a value of the field's type or leaves it
  out. \<^verbatim>\<open>topic\<close> and \<^verbatim>\<open>source\<close> are \<^verbatim>\<open>Field(..., min_length=1, max_length=255)\<close>;
  the other three have a default factory.
\<close>

record raw_event =
  raw_topic :: "string option"
  raw_event_id :: "string option"
  raw_timestamp :: "string option"
  raw_source :: "string option"
  raw_payload :: "payload option"

definition check_str :: "string \<Rightarrow> string option \<Rightarrow> field_error list" where
  "check_str f v =
     (case v of
        None \<Rightarrow> [Missing f]
      | Some x \<Rightarrow>
          if length x < 1 then [TooShort f]
          else if 255 < length x then [TooLong f]
          else [])"

text \<open>
  \<open>Event u n r\<close> is \<^verbatim>\<open>Event(**r)\<close>, where \<open>u\<close> is what \<^verbatim>\<open>str(uuid.uuid4())\<close> returns and
  \<open>n\<close> what \<^verbatim>\<open>datetime.utcnow().isoformat()\<close> returns, should the factories be called.
\<close>

definition Event :: "string \<Rightarrow> string \<Rightarrow> raw_event \<Rightarrow> exn + event" where
  "Event u n r =
     (case (raw_topic r, raw_source r) of
        (Some t, Some src) \<Rightarrow>
          if check_str ''topic'' (Some t) @ check_str ''source'' (Some src) = []
          then Inr \<lparr>topic = t,
                 event_id = (case raw_event_id r of None \<Rightarrow> u | Some i \<Rightarrow> i),
                 timestamp = (case raw_timestamp r of None \<Rightarrow> n @ ''Z'' | Some ts \<Rightarrow> ts),
                 source = src,
                 payload = (case raw_payload r of None \<Rightarrow> [] | Some p \<Rightarrow> p)\<rparr>
          else Inl (ValidationError
                 (check_str ''topic'' (Some t) @ check_str ''source'' (Some src)))
      | (t, src) \<Rightarrow>
          Inl (ValidationError (check_str ''topic'' t @ check_str ''source'' src)))"

text \<open>\<^verbatim>\<open>event.dict()\<close>: every field present.\<close>

definition dict :: "event \<Rightarrow> raw_event" where
  "dict e = \<lparr>raw_topic = Some (topic e), raw_event_id = Some (event_id e),
     raw_timestamp = Some (timestamp e), raw_source = Some (source e),
     raw_payload = Some (payload e)\<rparr>"

text \<open>
  \<^verbatim>\<open>events: Union[Event, List[Event]]\<close>, before and after validation. The body of a
  request may lack the key \<^verbatim>\<open>events\<close>. The environment gives, for the event at each
  position of the request, the results of the two default factories.
\<close>

datatype raw_events = Single raw_event | Batch "raw_event list"

datatype events_field = One event | Many "event list"

record env =
  uuid4 :: "nat \<Rightarrow> string"
  utcnow :: "nat \<Rightarrow> string"

text \<open>\<^verbatim>\<open>List[Event]\<close>: every item is validated, and the errors of all items are reported.\<close>

fun Events :: "env \<Rightarrow> nat \<Rightarrow> raw_event list \<Rightarrow> exn + event list" where
  "Events en k [] = Inr []"
| "Events en k (r # rs) =
     (case (Event (uuid4 en k) (utcnow en k) r, Events en (Suc k) rs) of
        (Inr e, Inr es) \<Rightarrow> Inr (e # es)
      | (Inl (ValidationError a), Inl (ValidationError b)) \<Rightarrow> Inl (ValidationError (a @ b))
      | (Inl x, _) \<Rightarrow> Inl x
      | (_, Inl y) \<Rightarrow> Inl y)"

definition PublishRequest :: "env \<Rightarrow> raw_events option \<Rightarrow> exn + events_field" where
  "PublishRequest en body =
     (case body of
        None \<Rightarrow> Inl (ValidationError [Missing ''events''])
      | Some (Single r) \<Rightarrow>
          (case Event (uuid4 en 0) (utcnow en 0) r of Inl x \<Rightarrow> Inl x | Inr e \<Rightarrow> Inr (One e))
      | Some (Batch rs) \<Rightarrow>
          (case Events en 0 rs of Inl x \<Rightarrow> Inl x | Inr es \<Rightarrow> Inr (Many es)))"

fun get_events :: "events_field \<Rightarrow> event list" where
  "get_events (Many es) = es"
| "get_events (One e) = [e]"

section \<open>The admission handler (\<^verbatim>\<open>publish_events\<close>)\<close>

record error_detail =
  index :: nat
  detail_event_id :: "string option"
  error :: string

record PublishResponse =
  status :: string
  count :: nat
  accepted :: nat
  rejected :: nat
  errors :: "error_detail list"

text \<open>
  \<^verbatim>\<open>await _queue.put(ev)\<close> on \<^verbatim>\<open>asyncio.Queue(maxsize=10000)\<close>. On a full queue the
  handler is suspended until the consumer takes an item: that outcome is \<open>None\<close> here.
\<close>

definition maxsize :: nat where
  "maxsize = 10000"

definition put :: "event \<Rightarrow> service \<Rightarrow> service option" where
  "put ev s =
     (if maxsize \<le> length (queue s) then None
      else Some (s\<lparr>queue := queue s @ [ev], unfinished_tasks := Suc (unfinished_tasks s)\<rparr>))"

text \<open>
  The \<^verbatim>\<open>for\<close> loop of the handler, from index \<open>idx\<close> on, with the counters and the error
  list so far. Its result is \<open>Inl e\<close> when an exception leaves the loop.
  \<^item> \<^verbatim>\<open>Event(**event.dict())\<close> builds the event again; no factory is called, every field
    being there.
  \<^item> The clause \<^verbatim>\<open>except ValidationError\<close> adds one to \<^verbatim>\<open>rejected\<close>, then calls
    \<^verbatim>\<open>event.get\<close>, which a pydantic model does not have: \<open>AttributeError\<close> leaves the loop.
  \<^item> The clause \<^verbatim>\<open>except Exception\<close> adds one to \<^verbatim>\<open>rejected\<close> and appends
    \<^verbatim>\<open>{index, error}\<close>.
\<close>

definition no_get :: exn where
  "no_get = AttributeError ''Event object has no attribute get''"

fun publish_loop ::
  "nat \<Rightarrow> event list \<Rightarrow> nat \<Rightarrow> nat \<Rightarrow> error_detail list \<Rightarrow> service
   \<Rightarrow> ((exn + nat \<times> nat \<times> error_detail list) \<times> service) option" where
  "publish_loop idx [] acc rej errs s = Some (Inr (acc, rej, errs), s)"
| "publish_loop idx (ev # evs) acc rej errs s =
     (case Event [] [] (dict ev) of
        Inl e \<Rightarrow> Some (Inl no_get, s)
      | Inr validated_event \<Rightarrow>
          (case increment_stats 1 0 0 s of
             (Inl e, s1) \<Rightarrow>
               publish_loop (Suc idx) evs acc (Suc rej)
                 (errs @ [\<lparr>index = idx, detail_event_id = None, error = str_exn e\<rparr>])
                 (logger ERROR (Unexpected_error_processing_event idx (str_exn e)) s1)
           | (Inr _, s1) \<Rightarrow>
               (case put validated_event s1 of
                  None \<Rightarrow> None
                | Some s2 \<Rightarrow> publish_loop (Suc idx) evs (Suc acc) rej errs s2)))"

definition publish_events ::
  "events_field \<Rightarrow> service \<Rightarrow> ((exn + PublishResponse) \<times> service) option" where
  "publish_events request s =
     (case publish_loop 0 (get_events request) 0 0 [] s of
        None \<Rightarrow> None
      | Some (Inr (acc, rej, errs), s') \<Rightarrow>
          Some (Inr \<lparr>status = ''accepted'', count = length (get_events request),
                  accepted = acc, rejected = rej, errors = errs\<rparr>, s')
      | Some (Inl e, s') \<Rightarrow>
          Some (Inl (HTTPException 500 (str_exn e)),
                logger ERROR (Error_in_publish_endpoint (str_exn e)) s'))"

text \<open>
  \<^verbatim>\<open>POST /publish\<close>: the framework validates the body against \<^verbatim>\<open>PublishRequest\<close>
  (the handler's parameter type) and answers 422 itself when that fails; otherwise it
  calls the handler.
\<close>

definition post_publish ::
  "env \<Rightarrow> raw_events option \<Rightarrow> service \<Rightarrow> ((exn + PublishResponse) \<times> service) option" where
  "post_publish en body s =
     (case PublishRequest en body of
        Inl e \<Rightarrow> Some (Inl (HTTPException 422 (str_exn e)), s)
      | Inr request \<Rightarrow> publish_events request s)"

section \<open>The consumer (\<^verbatim>\<open>consumer_worker\<close>)\<close>

text \<open>\<^verbatim>\<open>Queue.task_done\<close> raises \<open>ValueError\<close> when no item is unfinished.\<close>

definition task_done :: "service \<Rightarrow> (exn + unit) \<times> service" where
  "task_done s =
     (case unfinished_tasks s of
        0 \<Rightarrow> (Inl (ValueError ''task_done() called too many times''), s)
      | Suc n \<Rightarrow> (Inr (), s\<lparr>unfinished_tasks := n\<rparr>))"

text \<open>The body of the \<^verbatim>\<open>try\<close> block for the event taken, up to \<^verbatim>\<open>task_done\<close>.\<close>

definition process_event :: "event \<Rightarrow> service \<Rightarrow> (exn + unit) \<times> service" where
  "process_event ev s =
     (case is_processed (topic ev) (event_id ev) s of
        (Inl e, s1) \<Rightarrow> (Inl e, s1)
      | (Inr True, s1) \<Rightarrow>
          (case increment_stats 0 0 1 s1 of
             (Inl e, s2) \<Rightarrow> (Inl e, s2)
           | (Inr _, s2) \<Rightarrow>
               (Inr (), logger INFO (Duplicate_dropped (topic ev) (event_id ev)) s2))
      | (Inr False, s1) \<Rightarrow>
          (case mark_processed ev s1 of
             (Inl e, s2) \<Rightarrow> (Inl e, s2)
           | (Inr (True, err), s2) \<Rightarrow>
               (case increment_stats 0 1 0 s2 of
                  (Inl e, s3) \<Rightarrow> (Inl e, s3)
                | (Inr _, s3) \<Rightarrow>
                    (Inr (), logger INFO (Event_processed (topic ev) (event_id ev)) s3))
           | (Inr (False, err), s2) \<Rightarrow>
               (case increment_stats 0 0 1 s2 of
                  (Inl e, s3) \<Rightarrow> (Inl e, s3)
                | (Inr _, s3) \<Rightarrow>
                    (Inr (),
                     logger WARNING (Event_rejected err (topic ev) (event_id ev)) s3))))"

text \<open>
  One pass of \<^verbatim>\<open>while True\<close> for the event \<open>ev\<close> the consumer holds. An exception of the
  body is caught, logged and followed by \<^verbatim>\<open>task_done\<close>. The \<open>ValueError\<close> of
  \<^verbatim>\<open>task_done\<close> in the body is caught the same way; the one of \<^verbatim>\<open>task_done\<close> in the
  \<^verbatim>\<open>except\<close> clause ends the task.
\<close>

definition handle_exception :: "exn \<Rightarrow> service \<Rightarrow> service" where
  "handle_exception e s =
     (case task_done (logger ERROR (Error_in_consumer_worker (str_exn e)) s) of
        (Inl e', s') \<Rightarrow> s'\<lparr>consumer := Failed e'\<rparr>
      | (Inr _, s') \<Rightarrow> s'\<lparr>consumer := Running None\<rparr>)"

definition consumer_pass :: "event \<Rightarrow> service \<Rightarrow> service" where
  "consumer_pass ev s =
     (case process_event ev s of
        (Inl e, s1) \<Rightarrow> handle_exception e s1
      | (Inr _, s1) \<Rightarrow>
          (case task_done s1 of
             (Inl e, s2) \<Rightarrow> handle_exception e s2
           | (Inr _, s2) \<Rightarrow> s2\<lparr>consumer := Running None\<rparr>))"

text \<open>
  One turn of the consumer task on the event loop: a waiting consumer takes the head of
  the queue (\<^verbatim>\<open>await _queue.get()\<close>) if there is one; a consumer holding an event
  runs its pass; a task that has ended does nothing.
\<close>

definition consumer_turn :: "service \<Rightarrow> service" where
  "consumer_turn s =
     (case consumer s of
        Running None \<Rightarrow>
          (case queue s of
             [] \<Rightarrow> s
           | ev # q \<Rightarrow> s\<lparr>queue := q, consumer := Running (Some ev)\<rparr>)
      | Running (Some ev) \<Rightarrow> consumer_pass ev s
      | Cancelled \<Rightarrow> s
      | Failed e \<Rightarrow> s)"

section \<open>Shutdown (\<^verbatim>\<open>lifespan\<close>, after \<^verbatim>\<open>yield\<close>)\<close>

text \<open>
  \<^verbatim>\<open>_consumer_task.cancel()\<close> and \<^verbatim>\<open>await _consumer_task\<close>: \<open>CancelledError\<close> is raised
  in the consumer where it is suspended. It is not an \<^verbatim>\<open>Exception\<close> (Python 3.8 and
  later), so the
  \<^verbatim>\<open>except\<close> clause of the loop does not catch it: the task ends, and the event it held
  is never marked done.
\<close>

definition cancel :: "service \<Rightarrow> service" where
  "cancel s = s\<lparr>consumer := Cancelled\<rparr>"

text \<open>
  \<^verbatim>\<open>await _queue.join()\<close>: returns once \<open>unfinished_tasks\<close> is zero, and lets the other
  task run otherwise. \<open>fuel\<close> bounds the turns; \<open>None\<close> means that \<^verbatim>\<open>join\<close> has not
  returned within them.
\<close>

fun join :: "nat \<Rightarrow> service \<Rightarrow> service option" where
  "join 0 s = None"
| "join (Suc fuel) s =
     (if unfinished_tasks s = 0 then Some s else join fuel (consumer_turn s))"

definition shutdown :: "nat \<Rightarrow> service \<Rightarrow> service option" where
  "shutdown fuel s =
     (case join fuel (cancel (logger INFO Shutting_down s)) of
        None \<Rightarrow> None
      | Some s' \<Rightarrow>
          Some (logger INFO Aggregator_service_stopped
                 (close_pool (logger INFO Queue_emptied s'))))"

section \<open>Sequences of calls, the invariant, reachable states\<close>

text \<open>
  \<^verbatim>\<open>init_pool\<close>: nothing to do when the pool is there; otherwise the pool is opened,
  unless the server cannot be reached.
\<close>

definition init_pool :: "service \<Rightarrow> (exn + unit) \<times> service" where
  "init_pool s =
     (if pool s then (Inr (), s)
      else case answer s of
        (Some e, s') \<Rightarrow> (Inl e, s')
      | (None, s') \<Rightarrow> (Inr (), s'\<lparr>pool := True\<rparr>))"

text \<open>
  Calls of \<^verbatim>\<open>increment_stats\<close>, each a transaction of its own, with the result of each
  call, in the order in which the server ends the transactions. A transaction that the
  server aborts because it ran together with another one is a call whose answer in the
  script is \<open>SerializationError\<close>.
\<close>

fun increment_all :: "(int \<times> int \<times> int) list \<Rightarrow> service \<Rightarrow> (exn + unit) list \<times> service" where
  "increment_all [] s = ([], s)"
| "increment_all ((r, u, d) # ds) s =
     (case increment_stats r u d s of
        (x, s1) \<Rightarrow> (case increment_all ds s1 of (xs, s2) \<Rightarrow> (x # xs, s2)))"

definition ten_calls :: "(int \<times> int \<times> int) list" where
  "ten_calls = [(1, 1, 0), (1, 1, 0), (1, 1, 0), (1, 1, 0), (1, 1, 0),
                (1, 1, 0), (1, 1, 0), (1, 1, 0), (1, 1, 0), (1, 1, 0)]"

text \<open>
  The ten calls made at once, as in the test \<^verbatim>\<open>test_stats_increment_concurrent\<close>: ten
  serializable transactions are open together and each updates the one statistics row.
  The server lets the first commit and aborts those whose snapshot is older than that
  commit; here eight of them, the last call starting after the others have ended.
\<close>

definition contended :: service where
  "contended = fresh [None, Some SerializationError, Some SerializationError,
     Some SerializationError, Some SerializationError, Some SerializationError,
     Some SerializationError, Some SerializationError, Some SerializationError, None]"

text \<open>
  (I1): every row of \<^verbatim>\<open>processed_events\<close> has a row of \<^verbatim>\<open>dedup_store\<close> with its key.
\<close>

definition I1 :: "database \<Rightarrow> bool" where
  "I1 d = (\<forall>r \<in> set (processed_events d). (topic r, event_id r) \<in> set (dedup_store d))"

text \<open>
  The states the service reaches from the schema of \<^verbatim>\<open>init_db\<close>, whatever the server
  answers: by the functions of the persistence layer, by a request to
  \<^verbatim>\<open>POST /publish\<close>, by a turn of the consumer and by the shutdown sequence.
\<close>

inductive reachable :: "service \<Rightarrow> bool" where
  start: "reachable (fresh as)"
| is_processed: "reachable s \<Longrightarrow> reachable (snd (is_processed t i s))"
| mark_processed: "reachable s \<Longrightarrow> reachable (snd (mark_processed ev s))"
| increment_stats: "reachable s \<Longrightarrow> reachable (snd (increment_stats r u d s))"
| get_stats: "reachable s \<Longrightarrow> reachable (snd (get_stats s))"
| clear_all_data: "reachable s \<Longrightarrow> reachable (snd (clear_all_data s))"
| close_pool: "reachable s \<Longrightarrow> reachable (close_pool s)"
| init_pool: "reachable s \<Longrightarrow> reachable (snd (init_pool s))"
| post_publish: "reachable s \<Longrightarrow> post_publish en body s = Some (x, s') \<Longrightarrow> reachable s'"
| consumer_turn: "reachable s \<Longrightarrow> reachable (consumer_turn s)"
| shutdown: "reachable s \<Longrightarrow> shutdown fuel s = Some s' \<Longrightarrow> reachable s'"

definition tables :: "service \<Rightarrow> (string \<times> string) list \<times> event list" where
  "tables s = (dedup_store (db s), processed_events (db s))"

section \<open>The retry of the specification\<close>

text \<open>
  For comparison with the code, the behaviour the specification describes: when the
  transaction aborts on a concurrent conflict, the operation is tried again, with at
  most \<open>n\<close> further attempts. Three attempts are \<open>n = 2\<close>.
\<close>

fun mark_processed_retrying ::
  "nat \<Rightarrow> event \<Rightarrow> service \<Rightarrow> (exn + bool \<times> string option) \<times> service" where
  "mark_processed_retrying 0 ev s = mark_processed ev s"
| "mark_processed_retrying (Suc n) ev s =
     (case mark_processed ev s of
        (r, s') \<Rightarrow>
          if r = Inr (False, Some (str_exn SerializationError))
          then mark_processed_retrying n ev s' else (r, s'))"

fun increment_stats_retrying ::
  "nat \<Rightarrow> int \<Rightarrow> int \<Rightarrow> int \<Rightarrow> service \<Rightarrow> (exn + unit) \<times> service" where
  "increment_stats_retrying 0 r u d s = increment_stats r u d s"
| "increment_stats_retrying (Suc n) r u d s =
     (case increment_stats r u d s of
        (x, s') \<Rightarrow>
          if x = Inl SerializationError
          then increment_stats_retrying n r u d s' else (x, s'))"

text \<open>The server aborts the first statement it receives, and runs all later ones.\<close>

definition abort_once :: service where
  "abort_once = fresh [Some SerializationError]"

text \<open>
  The server runs the first statement and cancels the second on a statement timeout: an
  error that is no uniqueness violation, on a connection that stays open.
\<close>

definition statement_timeout :: service where
  "statement_timeout = fresh [None, Some (PostgresError ''canceling statement due to statement timeout'')]"

section \<open>Concrete inputs\<close>

text \<open>A raw record with a topic, an event id and a source, and a fixed environment.\<close>

definition raw :: "string \<Rightarrow> string \<Rightarrow> raw_event" where
  "raw t i = \<lparr>raw_topic = Some t, raw_event_id = Some i, raw_timestamp = None,
     raw_source = Some ''s'', raw_payload = None\<rparr>"

definition env0 :: env where
  "env0 = \<lparr>uuid4 = (\<lambda>k. ''3f2b8c1e-5d4a-4e6f-9a7b-0c1d2e3f4a5b''),
     utcnow = (\<lambda>k. ''2025-12-18T10:30:00'')\<rparr>"

text \<open>
  The service after two events were admitted, and after the consumer took the first of
  them.
\<close>

definition accepted_two :: service where
  "accepted_two = \<lparr>pool = True,
     db = \<lparr>dedup_store = [], processed_events = [],
       event_stats = Some \<lparr>received = 2, unique_processed = 0, duplicate_dropped = 0\<rparr>\<rparr>,
     script = [], queue = [evt ''t'' ''e1'', evt ''t'' ''e2''], unfinished_tasks = 2,
     consumer = Running None, log = []\<rparr>"

definition busy :: service where
  "busy = accepted_two\<lparr>queue := [evt ''t'' ''e2''], consumer := Running (Some (evt ''t'' ''e1''))\<rparr>"


text \<open>Two requests of three events, the second with an event that has no topic.\<close>

definition three_valid :: "raw_events option" where
  "three_valid = Some (Batch [raw ''t'' ''e1'', raw ''t'' ''e2'', raw ''t'' ''e3''])"

definition one_bad :: "raw_events option" where
  "one_bad = Some (Batch [raw ''t'' ''e1'', (raw ''t'' ''e2'')\<lparr>raw_topic := None\<rparr>,
     raw ''t'' ''e3''])"

definition two_of_three :: PublishResponse where
  "two_of_three = \<lparr>status = ''accepted'', count = 3, accepted = 2, rejected = 1,
     errors = [\<lparr>index = 1, detail_event_id = None, error = ''canceling statement due to statement timeout''\<rparr>]\<rparr>"

section \<open>Theorems\<close>

subsection \<open>\<^verbatim>\<open>mark_processed\<close> on a duplicate\<close>

lemma leave_block_open [simp]: "\<not> closes_connection e \<Longrightarrow> leave_block e = e"
  by (simp add: leave_block_def)

lemma answer_empty: "script s = [] \<Longrightarrow> answer s = (None, s)"
  by (simp add: answer_def)

text \<open>With the pool open and no error from the server, the result is always true.\<close>

lemma mark_processed_true_without_error:
  "pool s \<Longrightarrow> script s = [] \<Longrightarrow> fst (mark_processed ev s) = Inr (True, None)"
  by (simp add: mark_processed_def answer_empty)

text \<open>
  When the connection is lost in the middle of a statement, the function does not return
  a result: it raises on leaving the transaction block, and the database is unchanged.
\<close>

lemma mark_processed_connection_lost:
  "pool s \<Longrightarrow> script s = Some ConnectionDoesNotExistError # rest \<Longrightarrow>
   fst (mark_processed ev s) = Inl connection_is_closed
   \<and> db (snd (mark_processed ev s)) = db s"
  by (simp add: mark_processed_def mark_failed_def answer_def logger_def)

text \<open>
  C1 (\<^verbatim>\<open>mark_processed\<close> returns true iff its insert into \<^verbatim>\<open>dedup_store\<close> created a row;
  of several calls with one key exactly one returns true). The code returns
  \<open>(True, None)\<close> whenever neither statement raises, and \<^verbatim>\<open>ON CONFLICT DO NOTHING\<close>
  never raises on a duplicate: called twice in a row with the same event on the fresh
  schema, both calls return true and the second leaves both tables as they were.
\<close>

theorem mark_processed_twice_both_true:
  "fst (mark_processed (evt ''t'' ''e1'') (fresh [])) = Inr (True, None)
   \<and> fst (mark_processed (evt ''t'' ''e1'') (snd (mark_processed (evt ''t'' ''e1'') (fresh []))))
       = Inr (True, None)
   \<and> db (snd (mark_processed (evt ''t'' ''e1'') (snd (mark_processed (evt ''t'' ''e1'') (fresh [])))))
       = db (snd (mark_processed (evt ''t'' ''e1'') (fresh [])))
   \<and> dedup_store (db (snd (mark_processed (evt ''t'' ''e1'') (fresh [])))) = [(''t'', ''e1'')]"
  by (simp add: mark_processed_def fresh_def answer_def evt_def empty_db_def
      insert_dedup_def insert_processed_def)

subsection \<open>Increments of the statistics\<close>

lemma increment_stats_ok:
  "increment_stats r u d s = (Inr (), s') \<Longrightarrow> event_stats (db s) = Some row \<Longrightarrow>
   event_stats (db s') = Some \<lparr>received = received row + r,
      unique_processed = unique_processed row + u,
      duplicate_dropped = duplicate_dropped row + d\<rparr>"
  by (auto simp: increment_stats_def answer_def update_stats_def logger_def
      split: if_splits list.splits option.splits sum.splits)

lemma increment_all_sum:
  "increment_all ds s = (rs, s') \<Longrightarrow> list_all (\<lambda>x. x = Inr ()) rs \<Longrightarrow>
   event_stats (db s) = Some row \<Longrightarrow>
   event_stats (db s') = Some \<lparr>received = received row + sum_list (map fst ds),
      unique_processed = unique_processed row + sum_list (map (fst \<circ> snd) ds),
      duplicate_dropped = duplicate_dropped row + sum_list (map (snd \<circ> snd) ds)\<rparr>"
proof (induction ds arbitrary: s rs row s')
  case Nil
  then show ?case by simp
next
  case (Cons x ds)
  obtain r u d where x: "x = (r, u, d)" by (cases x)
  obtain y s1 where a: "increment_stats r u d s = (y, s1)" by (cases "increment_stats r u d s")
  obtain ys s2 where b: "increment_all ds s1 = (ys, s2)" by (cases "increment_all ds s1")
  from Cons.prems(1) x a b have rs: "rs = y # ys" and s': "s' = s2" by auto
  from Cons.prems(2) rs have y: "y = Inr ()" and ys: "list_all (\<lambda>x. x = Inr ()) ys" by auto
  from increment_stats_ok[OF a[unfolded y] Cons.prems(3)]
  have row1: "event_stats (db s1) = Some \<lparr>received = received row + r,
      unique_processed = unique_processed row + u,
      duplicate_dropped = duplicate_dropped row + d\<rparr>" .
  from Cons.IH[OF b ys row1] show ?case by (simp add: x s' add.assoc)
qed

lemma sum_list_perm: "mset ds' = mset ds \<Longrightarrow> sum_list (map f ds') = (sum_list (map f ds) :: int)"
  by (metis mset_map sum_mset_sum_list)


text \<open>
  Calls that all return: run in any two orders \<open>ds\<close> and \<open>ds'\<close> from a state that has the
  statistics row, they leave each counter at its value before plus the sum of its
  deltas, and so at the same values in both orders. The update itself commutes; a call
  that raises changes nothing.
\<close>

lemma calls_that_return_commute:
  assumes "event_stats (db s) = Some row"
    and "mset ds' = mset ds"
    and "increment_all ds s = (rs, t)" and "list_all (\<lambda>x. x = Inr ()) rs"
    and "increment_all ds' s = (rs', t')" and "list_all (\<lambda>x. x = Inr ()) rs'"
  shows "event_stats (db t) = Some \<lparr>received = received row + sum_list (map fst ds),
           unique_processed = unique_processed row + sum_list (map (fst \<circ> snd) ds),
           duplicate_dropped = duplicate_dropped row + sum_list (map (snd \<circ> snd) ds)\<rparr>
         \<and> event_stats (db t') = event_stats (db t)"
  using increment_all_sum[OF assms(3,4,1)] increment_all_sum[OF assms(5,6,1)]
    sum_list_perm[OF assms(2)]
  by simp

lemma ten_calls_run:
  "increment_all ten_calls (fresh []) =
     ([Inr (), Inr (), Inr (), Inr (), Inr (), Inr (), Inr (), Inr (), Inr (), Inr ()],
      (fresh [])\<lparr>db := empty_db\<lparr>event_stats :=
         Some \<lparr>received = 10, unique_processed = 10, duplicate_dropped = 0\<rparr>\<rparr>\<rparr>)"
  by (simp add: ten_calls_def increment_stats_def fresh_def answer_def update_stats_def
      int4_def empty_db_def)

lemma ten_calls_in_a_row:
  "event_stats (db (snd (increment_all ten_calls (fresh []))))
     = Some \<lparr>received = 10, unique_processed = 10, duplicate_dropped = 0\<rparr>
   \<and> event_stats (db (snd (increment_all (rev ten_calls) (fresh []))))
     = event_stats (db (snd (increment_all ten_calls (fresh []))))"
proof -
  have a: "event_stats (db (fresh [])) = Some \<lparr>received = 0, unique_processed = 0, duplicate_dropped = 0\<rparr>"
    by (simp add: fresh_def empty_db_def)
  have b: "mset (rev ten_calls) = mset ten_calls" by simp
  have r: "rev ten_calls = ten_calls" by (simp add: ten_calls_def)
  have c: "increment_all ten_calls (fresh []) =
    (fst (increment_all ten_calls (fresh [])), snd (increment_all ten_calls (fresh [])))" by simp
  have d: "list_all (\<lambda>x. x = Inr ()) (fst (increment_all ten_calls (fresh [])))"
    by (simp add: ten_calls_run)
  have c': "increment_all (rev ten_calls) (fresh []) =
    (fst (increment_all (rev ten_calls) (fresh [])), snd (increment_all (rev ten_calls) (fresh [])))" by simp
  have d': "list_all (\<lambda>x. x = Inr ()) (fst (increment_all (rev ten_calls) (fresh [])))"
    by (simp add: r ten_calls_run)
  from calls_that_return_commute[OF a b c d c' d'] show ?thesis
    by (simp add: ten_calls_def)
qed


text \<open>
  C6 (any sequence or interleaving of increments leaves each counter at its initial
  value plus the sum of the deltas; ten concurrent calls with \<open>received = 1, unique = 1\<close>
  yield \<open>received = 10\<close> and \<open>unique_processed = 10\<close>). When the ten transactions run
  together, the server aborts those that conflict with the one that committed, and
  \<^verbatim>\<open>increment_stats\<close> raises the abort without another attempt: with eight aborts the
  row ends at \<open>received = 2, unique_processed = 2\<close>, eight callers get
  \<open>SerializationError\<close>, and the assertions of the test on 10 fail.
\<close>

theorem ten_concurrent_calls_abort:
  "fst (increment_all ten_calls contended) =
     [Inr (), Inl SerializationError, Inl SerializationError, Inl SerializationError,
      Inl SerializationError, Inl SerializationError, Inl SerializationError,
      Inl SerializationError, Inl SerializationError, Inr ()]
   \<and> event_stats (db (snd (increment_all ten_calls contended)))
       = Some \<lparr>received = 2, unique_processed = 2, duplicate_dropped = 0\<rparr>"
  by (simp add: ten_calls_def contended_def increment_stats_def fresh_def answer_def
      update_stats_def int4_def empty_db_def logger_def leave_block_def)

subsection \<open>The invariant\<close>

lemma I1_tables: "tables s' = tables s \<Longrightarrow> I1 (db s') = I1 (db s)"
  by (simp add: tables_def I1_def)

lemma tables_logger [simp]: "tables (logger l m s) = tables s"
  by (simp add: tables_def logger_def)

lemma tables_answer: "answer s = (a, s') \<Longrightarrow> tables s' = tables s"
  by (auto simp: answer_def tables_def split: list.splits)

lemma tables_is_processed: "tables (snd (is_processed t i s)) = tables s"
  by (auto simp: is_processed_def answer_def tables_def split: list.splits option.splits)

lemma tables_increment_stats: "tables (snd (increment_stats r u d s)) = tables s"
  by (auto simp: increment_stats_def answer_def tables_def update_stats_def logger_def
      split: list.splits option.splits sum.splits if_splits)

lemma tables_get_stats: "tables (snd (get_stats s)) = tables s"
  by (auto simp: get_stats_def answer_def tables_def split: list.splits option.splits)

lemma tables_close_pool: "tables (close_pool s) = tables s"
  by (simp add: close_pool_def tables_def logger_def)

lemma tables_init_pool: "tables (snd (init_pool s)) = tables s"
  by (auto simp: init_pool_def answer_def tables_def split: list.splits option.splits)

lemma I1_insert: "I1 d \<Longrightarrow> I1 (insert_processed ev (insert_dedup (topic ev, event_id ev) d))"
  by (auto simp: I1_def insert_processed_def insert_dedup_def)

lemma I1_mark_processed: "I1 (db s) \<Longrightarrow> I1 (db (snd (mark_processed ev s)))"
  by (auto simp: mark_processed_def mark_failed_def answer_def logger_def I1_insert
      split: list.splits option.splits exn.splits)

lemma I1_clear_all_data: "I1 (db s) \<Longrightarrow> I1 (db (snd (clear_all_data s)))"
  by (auto simp: clear_all_data_def answer_def I1_def split: list.splits option.splits)

lemma tables_task_done: "tables (snd (task_done s)) = tables s"
  by (auto simp: task_done_def tables_def split: nat.splits)


lemma I1_is_processed [simp]: "I1 (db (snd (is_processed t i s))) = I1 (db s)"
  by (rule I1_tables[OF tables_is_processed])

lemma I1_increment_stats [simp]: "I1 (db (snd (increment_stats r u d s))) = I1 (db s)"
  by (rule I1_tables[OF tables_increment_stats])

lemma I1_task_done [simp]: "I1 (db (snd (task_done s))) = I1 (db s)"
  by (rule I1_tables[OF tables_task_done])

lemma I1_logger [simp]: "I1 (db (logger l m s)) = I1 (db s)"
  by (simp add: logger_def)

lemma I1_process_event: "I1 (db s) \<Longrightarrow> I1 (db (snd (process_event ev s)))"
  by (simp add: process_event_def case_prod_beta I1_mark_processed
      split: sum.split bool.split)

lemma I1_handle_exception: "I1 (db s) \<Longrightarrow> I1 (db (handle_exception e s))"
  by (simp add: handle_exception_def case_prod_beta split: sum.split)

lemma I1_consumer_pass: "I1 (db s) \<Longrightarrow> I1 (db (consumer_pass ev s))"
  by (simp add: consumer_pass_def case_prod_beta I1_process_event I1_handle_exception
      split: sum.split)

lemma I1_consumer_turn: "I1 (db s) \<Longrightarrow> I1 (db (consumer_turn s))"
  by (simp add: consumer_turn_def I1_consumer_pass
      split: consumer_state.split option.split list.split)

lemma I1_put: "put ev s = Some s' \<Longrightarrow> db s' = db s"
  by (auto simp: put_def split: if_splits)

lemma I1_publish_loop:
  "publish_loop idx evs acc rej errs s = Some (x, s') \<Longrightarrow> I1 (db s) \<Longrightarrow> I1 (db s')"
proof (induction idx evs acc rej errs s rule: publish_loop.induct)
  case (1 idx acc rej errs s)
  then show ?case by simp
next
  case (2 idx ev evs acc rej errs s)
  show ?case
  proof (cases "Event [] [] (dict ev)")
    case (Inl e)
    with "2.prems" show ?thesis by simp
  next
    case (Inr v)
    obtain y s1 where inc: "increment_stats 1 0 0 s = (y, s1)"
      by (cases "increment_stats 1 0 0 s")
    have s1: "I1 (db s1)" using I1_increment_stats[of 1 0 0 s] inc "2.prems"(2) by simp
    show ?thesis
    proof (cases y)
      case (Inl e)
      from "2.IH"(1)[OF Inr inc[symmetric] Inl] "2.prems"(1) Inr inc Inl s1
      show ?thesis by simp
    next
      case (Inr u)
      note yr = this
      show ?thesis
      proof (cases "put v s1")
        case None
        with "2.prems"(1) \<open>Event [] [] (dict ev) = Inr v\<close> inc yr show ?thesis by simp
      next
        case (Some s2)
        have "I1 (db s2)" using I1_put[OF Some] s1 by simp
        with "2.IH"(2)[OF \<open>Event [] [] (dict ev) = Inr v\<close> inc[symmetric] yr Some]
          "2.prems"(1) \<open>Event [] [] (dict ev) = Inr v\<close> inc yr Some
        show ?thesis by simp
      qed
    qed
  qed
qed

lemma I1_post_publish: "post_publish en body s = Some (x, s') \<Longrightarrow> I1 (db s) \<Longrightarrow> I1 (db s')"
  unfolding post_publish_def publish_events_def
  by (auto split: sum.splits option.splits prod.splits dest: I1_publish_loop)

lemma I1_join: "join fuel s = Some s' \<Longrightarrow> I1 (db s) \<Longrightarrow> I1 (db s')"
  by (induction fuel s rule: join.induct) (auto split: if_splits intro: I1_consumer_turn)

lemma I1_shutdown: "shutdown fuel s = Some s' \<Longrightarrow> I1 (db s) \<Longrightarrow> I1 (db s')"
  unfolding shutdown_def
  by (auto split: option.splits dest!: I1_join simp: cancel_def close_pool_def logger_def)

text \<open>
  C7 (invariant I1 holds in every reachable state): every row of \<^verbatim>\<open>processed_events\<close>
  has a row of \<^verbatim>\<open>dedup_store\<close> with the same \<open>(topic, event_id)\<close>.
\<close>

theorem I1_reachable: "reachable s \<Longrightarrow> I1 (db s)"
proof (induction rule: reachable.induct)
  case (start as)
  show ?case by (simp add: fresh_def empty_db_def I1_def)
next
  case (is_processed s t i)
  then show ?case by simp
next
  case (mark_processed s ev)
  then show ?case by (simp add: I1_mark_processed)
next
  case (increment_stats s r u d)
  then show ?case by simp
next
  case (get_stats s)
  then show ?case by (simp add: I1_tables[OF tables_get_stats])
next
  case (clear_all_data s)
  then show ?case by (simp add: I1_clear_all_data)
next
  case (close_pool s)
  then show ?case by (simp add: I1_tables[OF tables_close_pool])
next
  case (init_pool s)
  then show ?case by (simp add: I1_tables[OF tables_init_pool])
next
  case (post_publish s en body x s')
  then show ?case using I1_post_publish by blast
next
  case (consumer_turn s)
  then show ?case by (simp add: I1_consumer_turn)
next
  case (shutdown s fuel s')
  then show ?case using I1_shutdown by blast
qed


theorem I1_reachable_witness:
  "processed_events (db (snd (mark_processed (evt ''t'' ''e1'') (fresh [])))) = [evt ''t'' ''e1'']
   \<and> I1 (db (snd (mark_processed (evt ''t'' ''e1'') (fresh []))))"
  using I1_reachable[OF reachable.mark_processed[OF reachable.start, of "evt ''t'' ''e1''" "[]"]]
  by (simp add: mark_processed_def fresh_def answer_def evt_def empty_db_def
      insert_dedup_def insert_processed_def)

subsection \<open>Aborted transactions\<close>

text \<open>
  C3 (at most three attempts before the error is surfaced), refuted: when the server
  aborts the first statement and would run every later one, \<^verbatim>\<open>mark_processed\<close> returns
  \<open>(False, error)\<close> and \<^verbatim>\<open>increment_stats\<close> raises, one statement sent and nothing
  written; with the retry of the specification both would succeed.
\<close>

theorem no_retry_counterexample:
  "fst (mark_processed (evt ''t'' ''e1'') abort_once)
     = Inr (False, Some ''could not serialize access due to concurrent update'')
   \<and> script (snd (mark_processed (evt ''t'' ''e1'') abort_once)) = []
   \<and> dedup_store (db (snd (mark_processed (evt ''t'' ''e1'') abort_once))) = []
   \<and> fst (mark_processed_retrying 2 (evt ''t'' ''e1'') abort_once) = Inr (True, None)
   \<and> fst (increment_stats 1 1 0 abort_once) = Inl SerializationError
   \<and> event_stats (db (snd (increment_stats 1 1 0 abort_once)))
       = Some \<lparr>received = 0, unique_processed = 0, duplicate_dropped = 0\<rparr>
   \<and> fst (increment_stats_retrying 2 1 1 0 abort_once) = Inr ()"
  by (simp add: abort_once_def mark_processed_def mark_failed_def fresh_def answer_def
      evt_def empty_db_def insert_dedup_def insert_processed_def logger_def
      increment_stats_def update_stats_def int4_def numeral_2_eq_2)

text \<open>
  C3 as amended: an abort on a concurrent conflict is surfaced at once, after a single
  attempt. \<^verbatim>\<open>mark_processed\<close> returns \<open>(False, str(e))\<close>, whether the first or the
  second insert aborts, and \<^verbatim>\<open>increment_stats\<close> raises the error again; the database is
  unchanged, and the only answers taken from the server are those up to the abort.
\<close>

theorem no_retry:
  "(pool s \<and> script s = Some SerializationError # rest \<longrightarrow>
      mark_processed ev s =
        (Inr (False, Some (str_exn SerializationError)),
         logger ERROR (Error_marking_event_as_processed (str_exn SerializationError))
           (s\<lparr>script := rest\<rparr>)))
   \<and> (pool s \<and> script s = None # Some SerializationError # rest \<longrightarrow>
      mark_processed ev s =
        (Inr (False, Some (str_exn SerializationError)),
         logger ERROR (Error_marking_event_as_processed (str_exn SerializationError))
           (s\<lparr>script := rest\<rparr>)))
   \<and> (pool s \<and> int4 r \<and> int4 u \<and> int4 d \<and> script s = Some SerializationError # rest \<longrightarrow>
      increment_stats r u d s =
        (Inl SerializationError,
         logger ERROR (Error_updating_stats (str_exn SerializationError))
           (s\<lparr>script := rest\<rparr>)))"
  by (simp add: mark_processed_def mark_failed_def answer_def increment_stats_def)

theorem no_retry_witness:
  "mark_processed (evt ''t'' ''e1'') (fresh [Some SerializationError, None, None]) =
     (Inr (False, Some ''could not serialize access due to concurrent update''),
      logger ERROR (Error_marking_event_as_processed
          ''could not serialize access due to concurrent update'')
        (fresh [None, None]))
   \<and> mark_processed (evt ''t'' ''e1'') (fresh [None, Some SerializationError, None]) =
     (Inr (False, Some ''could not serialize access due to concurrent update''),
      logger ERROR (Error_marking_event_as_processed
          ''could not serialize access due to concurrent update'')
        (fresh [None]))
   \<and> increment_stats 1 0 0 (fresh [Some SerializationError, None, None]) =
     (Inl SerializationError,
      logger ERROR (Error_updating_stats
          ''could not serialize access due to concurrent update'')
        (fresh [None, None]))"
  using no_retry[of "fresh [Some SerializationError, None, None]" "[None, None]"
      "evt ''t'' ''e1''" 1 0 0]
    no_retry[of "fresh [None, Some SerializationError, None]" "[None]"
      "evt ''t'' ''e1''" 1 0 0]
  by (simp add: fresh_def int4_def)

subsection \<open>The consumer on an event that was not persisted\<close>







subsection \<open>Shutdown\<close>

lemma join_cancelled:
  "consumer s = Cancelled \<Longrightarrow> unfinished_tasks s \<noteq> 0 \<Longrightarrow> join fuel s = None"
  by (induction fuel) (simp_all add: consumer_turn_def)

lemma publish_two:
  "post_publish env0 (Some (Batch [raw ''t'' ''e1'', raw ''t'' ''e2''])) (fresh [])
     = Some (Inr \<lparr>status = ''accepted'', count = 2, accepted = 2, rejected = 0, errors = []\<rparr>,
             accepted_two)"
  by (simp add: post_publish_def PublishRequest_def Event_def check_str_def raw_def env0_def
      publish_events_def dict_def increment_stats_def update_stats_def int4_def answer_def
      fresh_def empty_db_def put_def maxsize_def accepted_two_def evt_def)

lemma join_with_consumer:
  "map_option (\<lambda>s. (db s, queue s, unfinished_tasks s)) (join 4 busy) =
     Some (\<lparr>dedup_store = [(''t'', ''e1''), (''t'', ''e2'')],
             processed_events = [evt ''t'' ''e1'', evt ''t'' ''e2''],
             event_stats = Some \<lparr>received = 2, unique_processed = 2, duplicate_dropped = 0\<rparr>\<rparr>,
           [], 0)"
  by (simp add: eval_nat_numeral busy_def accepted_two_def consumer_turn_def consumer_pass_def
      process_event_def is_processed_def mark_processed_def increment_stats_def update_stats_def
      int4_def answer_def task_done_def logger_def insert_dedup_def insert_processed_def evt_def)

text \<open>
  C5 (shutdown loses no event that was accepted into the queue). Two events are
  admitted, the consumer takes the first, and shutdown begins. The shutdown sequence
  cancels the consumer first: the event it held and the event still queued are never
  checked against \<^verbatim>\<open>dedup_store\<close> nor counted, \<open>unfinished_tasks\<close> stays at two, and
  \<^verbatim>\<open>join\<close> does not return whatever the number of turns, so the pool is not closed
  either. With the consumer alive, \<^verbatim>\<open>join\<close> returns after four turns with both events
  processed (\<open>join_with_consumer\<close>).
\<close>

theorem shutdown_loses_queued_events:
  "post_publish env0 (Some (Batch [raw ''t'' ''e1'', raw ''t'' ''e2''])) (fresh [])
     = Some (Inr \<lparr>status = ''accepted'', count = 2, accepted = 2, rejected = 0, errors = []\<rparr>,
             accepted_two)
   \<and> consumer_turn accepted_two = busy
   \<and> shutdown fuel busy = None
   \<and> queue (cancel (logger INFO Shutting_down busy)) = [evt ''t'' ''e2'']
   \<and> unfinished_tasks (cancel (logger INFO Shutting_down busy)) = 2
   \<and> consumer_turn (cancel (logger INFO Shutting_down busy))
       = cancel (logger INFO Shutting_down busy)
   \<and> db (cancel (logger INFO Shutting_down busy))
       = \<lparr>dedup_store = [], processed_events = [],
          event_stats = Some \<lparr>received = 2, unique_processed = 0, duplicate_dropped = 0\<rparr>\<rparr>
   \<and> pool (cancel (logger INFO Shutting_down busy))"
proof -
  have 1: "consumer_turn accepted_two = busy"
    by (simp add: consumer_turn_def accepted_two_def busy_def)
  have 2: "shutdown fuel busy = None"
    by (simp add: shutdown_def join_cancelled cancel_def logger_def busy_def accepted_two_def)
  show ?thesis
    using publish_two 1 2
    by (simp add: cancel_def logger_def busy_def accepted_two_def consumer_turn_def)
qed


subsection \<open>Validation\<close>

lemma check_str_Nil:
  "(check_str f v = []) = (\<exists>x. v = Some x \<and> x \<noteq> [] \<and> length x \<le> 255)"
  by (cases v) (auto simp: check_str_def)

lemma Event_Inr:
  "(Event u n r = Inr e) =
     (\<exists>t src. raw_topic r = Some t \<and> raw_source r = Some src
        \<and> t \<noteq> [] \<and> length t \<le> 255 \<and> src \<noteq> [] \<and> length src \<le> 255
        \<and> e = \<lparr>topic = t,
                 event_id = (case raw_event_id r of None \<Rightarrow> u | Some i \<Rightarrow> i),
                 timestamp = (case raw_timestamp r of None \<Rightarrow> n @ ''Z'' | Some ts \<Rightarrow> ts),
                 source = src,
                 payload = (case raw_payload r of None \<Rightarrow> [] | Some p \<Rightarrow> p)\<rparr>)"
  by (cases "raw_topic r"; cases "raw_source r")
     (auto simp: Event_def check_str_def split: if_splits)

lemma Event_Inl: "Event u n r = Inl x \<Longrightarrow> \<exists>fs. x = ValidationError fs"
  by (cases "raw_topic r"; cases "raw_source r") (auto simp: Event_def split: if_splits)

lemma Events_Inl: "Events en k rs = Inl x \<Longrightarrow> \<exists>fs. x = ValidationError fs"
proof (induction rs arbitrary: k x)
  case Nil
  then show ?case by simp
next
  case (Cons r rs)
  show ?case
  proof (cases "Event (uuid4 en k) (utcnow en k) r")
    case (Inl a)
    then obtain fs where a: "a = ValidationError fs" using Event_Inl by blast
    show ?thesis
    proof (cases "Events en (Suc k) rs")
      case (Inl b)
      then obtain gs where "b = ValidationError gs" using Cons.IH by blast
      with Cons.prems \<open>Event (uuid4 en k) (utcnow en k) r = Inl a\<close> a Inl show ?thesis by auto
    next
      case (Inr es)
      with Cons.prems \<open>Event (uuid4 en k) (utcnow en k) r = Inl a\<close> a show ?thesis by auto
    qed
  next
    case (Inr e)
    show ?thesis
    proof (cases "Events en (Suc k) rs")
      case (Inl b)
      then obtain gs where "b = ValidationError gs" using Cons.IH by blast
      with Cons.prems Inr Inl show ?thesis by auto
    next
      case Inr2: (Inr es)
      with Cons.prems Inr show ?thesis by auto
    qed
  qed
qed

lemma Events_Cons_Inr:
  "(Events en k (r # rs) = Inr es) =
     (\<exists>e es'. es = e # es' \<and> Event (uuid4 en k) (utcnow en k) r = Inr e
        \<and> Events en (Suc k) rs = Inr es')"
proof (cases "Event (uuid4 en k) (utcnow en k) r")
  case (Inl a)
  then obtain fs where a: "a = ValidationError fs" using Event_Inl by blast
  show ?thesis
  proof (cases "Events en (Suc k) rs")
    case Inl2: (Inl b)
    then obtain gs where "b = ValidationError gs" using Events_Inl by blast
    with Inl a Inl2 show ?thesis by simp
  next
    case (Inr es')
    with Inl a show ?thesis by simp
  qed
next
  case (Inr e)
  show ?thesis
  proof (cases "Events en (Suc k) rs")
    case (Inl b)
    then obtain gs where "b = ValidationError gs" using Events_Inl by blast
    with Inr Inl show ?thesis by simp
  next
    case Inr2: (Inr es')
    with Inr show ?thesis by auto
  qed
qed

lemma Events_Inr:
  "(Events en k rs = Inr es) =
     (length es = length rs
      \<and> (\<forall>i<length rs. Event (uuid4 en (k + i)) (utcnow en (k + i)) (rs ! i) = Inr (es ! i)))"
proof (induction rs arbitrary: k es)
  case Nil
  then show ?case by auto
next
  case step: (Cons r rs)
  show ?case
  proof (cases es)
    case Nil
    then show ?thesis by (simp add: Events_Cons_Inr del: Events.simps)
  next
    case (Cons e es')
    have "(\<forall>i<Suc (length rs). Event (uuid4 en (k + i)) (utcnow en (k + i)) ((r # rs) ! i)
              = Inr ((e # es') ! i))
          = (Event (uuid4 en k) (utcnow en k) r = Inr e
             \<and> (\<forall>i<length rs. Event (uuid4 en (Suc k + i)) (utcnow en (Suc k + i)) (rs ! i)
                   = Inr (es' ! i)))"
      by (auto simp: All_less_Suc2)
    then show ?thesis
      using step.IH[of "Suc k" es'] Cons by (auto simp: Events_Cons_Inr simp del: Events.simps)
  qed
qed




lemma Event_256:
  "Event u n (raw (replicate 256 CHR ''a'') i) = Inl (ValidationError [TooLong ''topic''])"
  by (simp add: Event_def check_str_def raw_def)

subsection \<open>The admission handler\<close>

lemma publish_loop_counts:
  "publish_loop idx evs acc rej errs s = Some (Inr (a, r, es), s') \<Longrightarrow>
   a + r = acc + rej + length evs \<and> length es + rej = length errs + r"
proof (induction idx evs acc rej errs s rule: publish_loop.induct)
  case (1 idx acc rej errs s)
  then show ?case by simp
next
  case (2 idx ev evs acc rej errs s)
  show ?case
  proof (cases "Event [] [] (dict ev)")
    case (Inl e)
    with "2.prems" show ?thesis by simp
  next
    case v: (Inr v)
    obtain y s1 where inc: "increment_stats 1 0 0 s = (y, s1)"
      by (cases "increment_stats 1 0 0 s")
    show ?thesis
    proof (cases y)
      case (Inl e)
      from "2.IH"(1)[OF v inc[symmetric] Inl] "2.prems" v inc Inl
      show ?thesis by simp
    next
      case (Inr u)
      show ?thesis
      proof (cases "put v s1")
        case None
        with "2.prems" v inc Inr show ?thesis by simp
      next
        case (Some s2)
        from "2.IH"(2)[OF v inc[symmetric] Inr Some] "2.prems" v inc Inr Some
        show ?thesis by simp
      qed
    qed
  qed
qed

text \<open>
  C10 (the counts of a response): every response of \<^verbatim>\<open>POST /publish\<close> has
  \<open>accepted + rejected = count\<close>, \<open>count\<close> the number of events of the normalised request,
  and as many entries in \<open>errors\<close> as \<open>rejected\<close>.
\<close>

theorem publish_response_counts:
  assumes "post_publish en body s = Some (Inr resp, s')"
  shows "(\<exists>request. PublishRequest en body = Inr request
            \<and> count resp = length (get_events request))
         \<and> accepted resp + rejected resp = count resp
         \<and> length (errors resp) = rejected resp"
proof -
  from assms obtain request where rq: "PublishRequest en body = Inr request"
    and pe: "publish_events request s = Some (Inr resp, s')"
    by (auto simp: post_publish_def split: sum.splits)
  from pe obtain a r es where
    loop: "publish_loop 0 (get_events request) 0 0 [] s = Some (Inr (a, r, es), s')"
    and resp: "resp = \<lparr>status = ''accepted'', count = length (get_events request),
                  accepted = a, rejected = r, errors = es\<rparr>"
    by (auto simp: publish_events_def split: option.splits sum.splits prod.splits)
  from publish_loop_counts[OF loop] rq resp show ?thesis by simp
qed


lemma publish_three:
  "\<exists>s'. post_publish env0 three_valid statement_timeout = Some (Inr two_of_three, s')"
  by (simp add: post_publish_def PublishRequest_def Event_def check_str_def raw_def env0_def
      publish_events_def dict_def increment_stats_def update_stats_def int4_def answer_def
      fresh_def empty_db_def put_def maxsize_def evt_def three_valid_def statement_timeout_def
      two_of_three_def logger_def)

theorem publish_response_counts_witness:
  "(\<exists>s'. post_publish env0 three_valid statement_timeout = Some (Inr two_of_three, s'))
   \<and> accepted two_of_three + rejected two_of_three = count two_of_three
   \<and> length (errors two_of_three) = rejected two_of_three
   \<and> count two_of_three = 3"
proof -
  obtain s' where p: "post_publish env0 three_valid statement_timeout = Some (Inr two_of_three, s')"
    using publish_three by blast
  from publish_response_counts[OF p] p show ?thesis
    by (auto simp: two_of_three_def)
qed

text \<open>
  C4 (a validation failure is reported per event and does not abort the batch; the
  request \<open>[valid, {missing topic}, valid]\<close> is answered with \<open>count = 3\<close>,
  \<open>accepted = 2\<close>, \<open>rejected = 1\<close> and \<open>errors[0].index = 1\<close>). The handler has the clause
  that would do so, and it is never reached: the body is validated against the request
  model before the handler runs, so the request is refused as a whole with status 422
  and nothing is counted or queued. The clause itself fails as well: handed an event
  that does not validate (here one with an empty topic), the handler leaves the loop on
  \<^verbatim>\<open>event.get\<close> and answers 500 instead of reporting the event.
\<close>

theorem publish_one_bad_refused:
  "post_publish env0 one_bad (fresh []) =
     Some (Inl (HTTPException 422 ''topic: Field required''), fresh [])
   \<and> publish_events (Many [evt ''t'' ''e1'', evt [] ''e2'', evt ''t'' ''e3'']) (fresh []) =
     Some (Inl (HTTPException 500 ''Event object has no attribute get''),
           logger ERROR (Error_in_publish_endpoint ''Event object has no attribute get'')
             ((fresh [])\<lparr>db := empty_db\<lparr>event_stats :=
                  Some \<lparr>received = 1, unique_processed = 0, duplicate_dropped = 0\<rparr>\<rparr>,
                queue := [evt ''t'' ''e1''], unfinished_tasks := 1\<rparr>))"
  by (simp add: post_publish_def PublishRequest_def Event_def check_str_def raw_def env0_def
      one_bad_def publish_events_def dict_def evt_def increment_stats_def update_stats_def
      int4_def answer_def fresh_def empty_db_def put_def maxsize_def no_get_def logger_def)

lemma Event_dict: "Event u n r = Inr e \<Longrightarrow> Event u' n' (dict e) = Inr e"
  by (auto simp: Event_Inr dict_def)

lemma Events_dict:
  assumes "Events en k rs = Inr es" and "e \<in> set es"
  shows "Event u' n' (dict e) = Inr e"
proof -
  from assms(2) obtain i where i: "i < length es" "es ! i = e"
    by (auto simp: in_set_conv_nth)
  with assms(1) have "Event (uuid4 en (k + i)) (utcnow en (k + i)) (rs ! i) = Inr e"
    by (auto simp: Events_Inr)
  then show ?thesis by (rule Event_dict)
qed

lemma Events_refused:
  assumes "k < length rs" and "\<forall>e. Event (uuid4 en k) (utcnow en k) (rs ! k) \<noteq> Inr e"
  shows "\<exists>fs. Events en 0 rs = Inl (ValidationError fs)"
proof (cases "Events en 0 rs")
  case (Inl x)
  then show ?thesis using Events_Inl by blast
next
  case (Inr es)
  with assms show ?thesis by (auto simp: Events_Inr)
qed

lemma queue_increment_stats: "queue (snd (increment_stats r u d s)) = queue s"
  by (auto simp: increment_stats_def answer_def logger_def
      split: if_splits list.splits option.splits sum.splits)

lemma publish_loop_total:
  assumes "\<forall>ev \<in> set evs. Event [] [] (dict ev) = Inr ev"
    and "length (queue s) + length evs \<le> maxsize"
  shows "\<exists>a r es s'. publish_loop idx evs acc rej errs s = Some (Inr (a, r, es), s')
     \<and> (\<forall>d \<in> set es. d \<in> set errs \<or> (index d < idx + length evs \<and> detail_event_id d = None))
     \<and> length (queue s') + acc = length (queue s) + a"
  using assms
proof (induction evs arbitrary: idx acc rej errs s)
  case Nil
  then show ?case by simp
next
  case (Cons ev evs)
  have v: "Event [] [] (dict ev) = Inr ev" using Cons.prems(1) by simp
  have rest: "\<forall>ev \<in> set evs. Event [] [] (dict ev) = Inr ev" using Cons.prems(1) by simp
  obtain y s1 where inc: "increment_stats 1 0 0 s = (y, s1)"
    by (cases "increment_stats 1 0 0 s")
  have q1: "queue s1 = queue s" using queue_increment_stats[of 1 0 0 s] inc by simp
  show ?case
  proof (cases y)
    case (Inl e)
    let ?s = "logger ERROR (Unexpected_error_processing_event idx (str_exn e)) s1"
    let ?errs = "errs @ [\<lparr>index = idx, detail_event_id = None, error = str_exn e\<rparr>]"
    have room: "length (queue ?s) + length evs \<le> maxsize"
      using Cons.prems(2) q1 by (simp add: logger_def)
    from Cons.IH[OF rest room, of "Suc idx" acc "Suc rej" ?errs]
    obtain a r es s' where
      l: "publish_loop (Suc idx) evs acc (Suc rej) ?errs ?s = Some (Inr (a, r, es), s')"
      and d: "\<forall>d \<in> set es. d \<in> set ?errs
               \<or> (index d < Suc idx + length evs \<and> detail_event_id d = None)"
      and q: "length (queue s') + acc = length (queue ?s) + a"
      by blast
    have "publish_loop idx (ev # evs) acc rej errs s = Some (Inr (a, r, es), s')"
      using v inc Inl l by simp
    moreover have "\<forall>d \<in> set es. d \<in> set errs
        \<or> (index d < idx + length (ev # evs) \<and> detail_event_id d = None)"
      using d by auto
    moreover have "length (queue s') + acc = length (queue s) + a"
      using q q1 by (simp add: logger_def)
    ultimately show ?thesis by blast
  next
    case (Inr u)
    have "length (queue s1) < maxsize" using Cons.prems(2) q1 by simp
    then obtain s2 where p: "put ev s1 = Some s2" and q2: "queue s2 = queue s1 @ [ev]"
      by (auto simp: put_def)
    have room: "length (queue s2) + length evs \<le> maxsize"
      using Cons.prems(2) q1 q2 by simp
    from Cons.IH[OF rest room, of "Suc idx" "Suc acc" rej errs]
    obtain a r es s' where
      l: "publish_loop (Suc idx) evs (Suc acc) rej errs s2 = Some (Inr (a, r, es), s')"
      and d: "\<forall>d \<in> set es. d \<in> set errs
               \<or> (index d < Suc idx + length evs \<and> detail_event_id d = None)"
      and q: "length (queue s') + Suc acc = length (queue s2) + a"
      by blast
    have "publish_loop idx (ev # evs) acc rej errs s = Some (Inr (a, r, es), s')"
      using v inc Inr p l by simp
    moreover have "\<forall>d \<in> set es. d \<in> set errs
        \<or> (index d < idx + length (ev # evs) \<and> detail_event_id d = None)"
      using d by auto
    moreover have "length (queue s') + acc = length (queue s) + a"
      using q q1 q2 by simp
    ultimately show ?thesis by blast
  qed
qed

text \<open>
  What \<^verbatim>\<open>POST /publish\<close> does with a list of events. When any event of the list is
  invalid, the request is refused with status 422 and the state is unchanged. When every
  event is valid and the queue has room for them, the response has \<open>count\<close> equal to the
  length of the input, every event is either accepted and queued or rejected, a
  rejection (the statistics update raised) appends an entry with the event's index and
  no event id, and the batch goes on.
\<close>

lemma publish_whole_request:
  "((\<exists>k<length rs. \<forall>e. Event (uuid4 en k) (utcnow en k) (rs ! k) \<noteq> Inr e) \<longrightarrow>
      (\<exists>m. post_publish en (Some (Batch rs)) s = Some (Inl (HTTPException 422 m), s)))
   \<and> ((\<forall>k<length rs. \<exists>e. Event (uuid4 en k) (utcnow en k) (rs ! k) = Inr e)
        \<and> length (queue s) + length rs \<le> maxsize \<longrightarrow>
      (\<exists>resp s'. post_publish en (Some (Batch rs)) s = Some (Inr resp, s')
         \<and> count resp = length rs
         \<and> accepted resp + rejected resp = length rs
         \<and> length (errors resp) = rejected resp
         \<and> (\<forall>d \<in> set (errors resp). index d < length rs \<and> detail_event_id d = None)
         \<and> length (queue s') = length (queue s) + accepted resp))"
proof (intro conjI impI)
  assume "\<exists>k<length rs. \<forall>e. Event (uuid4 en k) (utcnow en k) (rs ! k) \<noteq> Inr e"
  then obtain fs where "Events en 0 rs = Inl (ValidationError fs)"
    using Events_refused by blast
  then show "\<exists>m. post_publish en (Some (Batch rs)) s = Some (Inl (HTTPException 422 m), s)"
    by (simp add: post_publish_def PublishRequest_def)
next
  assume a: "(\<forall>k<length rs. \<exists>e. Event (uuid4 en k) (utcnow en k) (rs ! k) = Inr e)
        \<and> length (queue s) + length rs \<le> maxsize"
  from a obtain f where
    "\<forall>k<length rs. Event (uuid4 en k) (utcnow en k) (rs ! k) = Inr (f k)"
    by metis
  then have es: "Events en 0 rs = Inr (map f [0..<length rs])"
    by (simp add: Events_Inr)
  define es where "es = map f [0..<length rs]"
  with es have es: "Events en 0 rs = Inr es" by simp
  then have len: "length es = length rs" by (simp add: Events_Inr)
  have valid: "\<forall>ev \<in> set es. Event [] [] (dict ev) = Inr ev"
    using Events_dict[OF es] by blast
  have room: "length (queue s) + length es \<le> maxsize" using a len by simp
  from publish_loop_total[OF valid room, of 0 0 0 "[]"]
  obtain ac r ers s' where
    l: "publish_loop 0 es 0 0 [] s = Some (Inr (ac, r, ers), s')"
    and d: "\<forall>d \<in> set ers. index d < length es \<and> detail_event_id d = None"
    and q: "length (queue s') = length (queue s) + ac"
    by auto
  from publish_loop_counts[OF l] have c: "ac + r = length es" "length ers = r" by simp_all
  let ?resp = "\<lparr>status = ''accepted'', count = length es, accepted = ac, rejected = r,
                 errors = ers\<rparr>"
  have "post_publish en (Some (Batch rs)) s = Some (Inr ?resp, s')"
    using es l by (simp add: post_publish_def PublishRequest_def publish_events_def)
  with c d q len show "\<exists>resp s'. post_publish en (Some (Batch rs)) s = Some (Inr resp, s')
         \<and> count resp = length rs
         \<and> accepted resp + rejected resp = length rs
         \<and> length (errors resp) = rejected resp
         \<and> (\<forall>d \<in> set (errors resp). index d < length rs \<and> detail_event_id d = None)
         \<and> length (queue s') = length (queue s) + accepted resp"
    by (intro exI[of _ ?resp] exI[of _ s']) simp
qed


lemma publish_whole_request_example:
  "(\<exists>m. post_publish env0 one_bad (fresh []) = Some (Inl (HTTPException 422 m), fresh []))
   \<and> (\<exists>resp s'. post_publish env0 three_valid statement_timeout = Some (Inr resp, s')
         \<and> count resp = 3 \<and> accepted resp + rejected resp = 3
         \<and> length (errors resp) = rejected resp
         \<and> length (queue s') = accepted resp)"
proof -
  let ?bad = "[raw ''t'' ''e1'', (raw ''t'' ''e2'')\<lparr>raw_topic := None\<rparr>, raw ''t'' ''e3'']"
  let ?good = "[raw ''t'' ''e1'', raw ''t'' ''e2'', raw ''t'' ''e3'']"
  have bad: "\<exists>k<length ?bad. \<forall>e. Event (uuid4 env0 k) (utcnow env0 k) (?bad ! k) \<noteq> Inr e"
    by (intro exI[of _ 1]) (simp add: Event_def raw_def check_str_def)
  have good: "(\<forall>k<length ?good. \<exists>e. Event (uuid4 env0 k) (utcnow env0 k) (?good ! k) = Inr e)
      \<and> length (queue statement_timeout) + length ?good \<le> maxsize"
    by (simp add: All_less_Suc2 Event_def raw_def check_str_def statement_timeout_def
        fresh_def maxsize_def)
  from publish_whole_request[of ?bad env0 "fresh []", THEN conjunct1, rule_format, OF bad]
    publish_whole_request[of ?good env0 statement_timeout, THEN conjunct2, rule_format, OF good]
  show ?thesis
    by (simp add: one_bad_def three_valid_def statement_timeout_def fresh_def numeral_3_eq_3)
      blast
qed

end
